theory Spec2Isabelle
  imports Complex_Main
begin

section \<open>JavaScript numbers\<close>

text \<open>
  The calculator of \<^verbatim>\<open>app/core/calc/calc.js\<close> computes with JavaScript numbers. They
  are modelled as exact real numbers extended by the three special values that the code
  can produce and test for: \<open>Infinity\<close>, \<open>-Infinity\<close> and \<open>NaN\<close>. Division by zero,
  \<open>Infinity - Infinity\<close> and comparisons with \<open>NaN\<close> behave as in JavaScript. Rounding,
  overflow of finite results and the sign of zero are not modelled: every finite
  operation is exact and zero is the positive zero. The model therefore decides what the
  code computes up to rounding, and says nothing about whether a value that the code
  computes in double precision is exactly the value of the formula.
\<close>

datatype num = Fin real | PInf | NInf | NaN

instantiation num :: comm_monoid_add
begin

definition zero_num :: num where
  "zero_num = Fin 0"

fun plus_num :: "num \<Rightarrow> num \<Rightarrow> num" where
  "plus_num NaN y = NaN"
| "plus_num x NaN = NaN"
| "plus_num (Fin a) (Fin b) = Fin (a + b)"
| "plus_num PInf NInf = NaN"
| "plus_num NInf PInf = NaN"
| "plus_num PInf y = PInf"
| "plus_num x PInf = PInf"
| "plus_num NInf y = NInf"
| "plus_num x NInf = NInf"

instance
proof
  fix u v w :: num
  show "u + v = v + u"
    by (cases u; cases v) simp_all
  show "0 + u = u"
    by (cases u) (simp_all add: zero_num_def)
  show "u + v + w = u + (v + w)"
    by (cases u; cases v; cases w) simp_all
qed

end

instantiation num :: "{one, uminus, minus, times, inverse, abs, ord}"
begin

definition one_num :: num where
  "one_num = Fin 1"

fun uminus_num :: "num \<Rightarrow> num" where
  "uminus_num (Fin a) = Fin (- a)"
| "uminus_num PInf = NInf"
| "uminus_num NInf = PInf"
| "uminus_num NaN = NaN"

definition minus_num :: "num \<Rightarrow> num \<Rightarrow> num" where
  "minus_num x y = x + (- y)"

fun times_num :: "num \<Rightarrow> num \<Rightarrow> num" where
  "times_num NaN y = NaN"
| "times_num x NaN = NaN"
| "times_num (Fin a) (Fin b) = Fin (a * b)"
| "times_num (Fin a) PInf = (if a = 0 then NaN else if 0 < a then PInf else NInf)"
| "times_num (Fin a) NInf = (if a = 0 then NaN else if 0 < a then NInf else PInf)"
| "times_num PInf (Fin b) = (if b = 0 then NaN else if 0 < b then PInf else NInf)"
| "times_num NInf (Fin b) = (if b = 0 then NaN else if 0 < b then NInf else PInf)"
| "times_num PInf PInf = PInf"
| "times_num PInf NInf = NInf"
| "times_num NInf PInf = NInf"
| "times_num NInf NInf = PInf"

fun divide_num :: "num \<Rightarrow> num \<Rightarrow> num" where
  "divide_num NaN y = NaN"
| "divide_num x NaN = NaN"
| "divide_num (Fin a) (Fin b) =
     (if b = 0 then (if a = 0 then NaN else if 0 < a then PInf else NInf)
      else Fin (a / b))"
| "divide_num (Fin a) PInf = Fin 0"
| "divide_num (Fin a) NInf = Fin 0"
| "divide_num PInf (Fin b) = (if 0 \<le> b then PInf else NInf)"
| "divide_num NInf (Fin b) = (if 0 \<le> b then NInf else PInf)"
| "divide_num PInf y = NaN"
| "divide_num NInf y = NaN"

definition inverse_num :: "num \<Rightarrow> num" where
  "inverse_num x = divide (Fin 1) x"

fun abs_num :: "num \<Rightarrow> num" where
  "abs_num (Fin a) = Fin \<bar>a\<bar>"
| "abs_num PInf = PInf"
| "abs_num NInf = PInf"
| "abs_num NaN = NaN"

fun less_num :: "num \<Rightarrow> num \<Rightarrow> bool" where
  "less_num NaN y = False"
| "less_num x NaN = False"
| "less_num (Fin a) (Fin b) = (a < b)"
| "less_num x NInf = False"
| "less_num PInf y = False"
| "less_num NInf y = True"
| "less_num x PInf = True"

fun less_eq_num :: "num \<Rightarrow> num \<Rightarrow> bool" where
  "less_eq_num NaN y = False"
| "less_eq_num x NaN = False"
| "less_eq_num (Fin a) (Fin b) = (a \<le> b)"
| "less_eq_num NInf y = True"
| "less_eq_num x PInf = True"
| "less_eq_num x NInf = False"
| "less_eq_num PInf y = False"

instance ..

end

text \<open>
  \<open>Math.pow\<close> with an integral exponent: any base to the power \<open>0\<close> is \<open>1\<close>, also \<open>NaN\<close>;
  zero to a negative power is \<open>Infinity\<close>.
\<close>

fun Math_pow :: "num \<Rightarrow> int \<Rightarrow> num" where
  "Math_pow x n =
     (if n = 0 then Fin 1
      else case x of
        NaN \<Rightarrow> NaN
      | Fin a \<Rightarrow> (if a = 0 then (if 0 < n then Fin 0 else PInf) else Fin (a powi n))
      | PInf \<Rightarrow> (if 0 < n then PInf else Fin 0)
      | NInf \<Rightarrow> (if 0 < n then (if odd n then NInf else PInf) else Fin 0))"

fun Math_ceil :: "num \<Rightarrow> num" where
  "Math_ceil (Fin a) = Fin (of_int \<lceil>a\<rceil>)"
| "Math_ceil x = x"

text \<open>
  A period count is a natural number or is omitted. An omitted count is \<open>undefined\<close>,
  which is \<open>NaN\<close> wherever the code uses it: as a number, as the exponent of
  \<open>Math.pow\<close>, in the running sum \<open>end\<close> and in the comparison \<open>i < end\<close>.
\<close>

fun count_num :: "nat option \<Rightarrow> num" where
  "count_num None = NaN"
| "count_num (Some k) = Fin (real k)"

fun Math_pow_count :: "num \<Rightarrow> int option \<Rightarrow> num" where
  "Math_pow_count x None = NaN"
| "Math_pow_count x (Some n) = Math_pow x n"

fun add_count :: "nat option \<Rightarrow> nat option \<Rightarrow> nat option" where
  "add_count (Some e) (Some k) = Some (e + k)"
| "add_count e k = None"

fun less_count :: "nat \<Rightarrow> nat option \<Rightarrow> bool" where
  "less_count i None = False"
| "less_count i (Some e) = (i < e)"

text \<open>
  \<open>Array.prototype.reduce\<close> without an initial value: the first element is the initial
  accumulator and the callback is first called at index \<open>1\<close>; on an empty array it throws
  a \<open>TypeError\<close>.
\<close>

datatype error = TypeError

fun reduce_from :: "(num \<Rightarrow> num \<Rightarrow> nat \<Rightarrow> num) \<Rightarrow> num \<Rightarrow> num list \<Rightarrow> nat \<Rightarrow> num" where
  "reduce_from f acc [] i = acc"
| "reduce_from f acc (x # xs) i = reduce_from f (f acc x i) xs (Suc i)"

fun reduce :: "(num \<Rightarrow> num \<Rightarrow> nat \<Rightarrow> num) \<Rightarrow> num list \<Rightarrow> error + num" where
  "reduce f [] = Inl TypeError"
| "reduce f (x # xs) = Inr (reduce_from f x xs 1)"

text \<open>An array read: out of range it gives \<open>undefined\<close>, which is \<open>NaN\<close> in arithmetic.\<close>

definition elem :: "num list \<Rightarrow> nat \<Rightarrow> num" where
  "elem xs i = (if i < length xs then xs ! i else NaN)"

section \<open>Time-value primitives and cashflow valuation\<close>

definition apf :: "num \<Rightarrow> nat option \<Rightarrow> num" where
  "apf rate n =
     (if rate > Fin 0
      then rate / (Fin 1 - Math_pow_count (Fin 1 + rate) (map_option (\<lambda>k. - int k) n))
      else (if count_num n > Fin 0 then Fin 1 / count_num n else Fin 1))"

definition pmt :: "num \<Rightarrow> num \<Rightarrow> nat option \<Rightarrow> num" where
  "pmt p rate n = p * apf rate n"

definition NPV :: "num list \<Rightarrow> num \<Rightarrow> error + num" where
  "NPV cashflow rate =
     (let r = rate + Fin 1
      in reduce (\<lambda>NPVn CFn i. if i > 0 then NPVn + CFn / Math_pow r (int i) else CFn) cashflow)"

definition dNPV :: "num list \<Rightarrow> num \<Rightarrow> error + num" where
  "dNPV cashflow rate =
     (let r = rate + Fin 1
      in reduce (\<lambda>NPVn CFn i. if i > 0 then NPVn - Fin (real i) * CFn / Math_pow r (int i + 1)
                              else Fin 0) cashflow)"

section \<open>The rate solver\<close>

definition epsMax :: num where
  "epsMax = Fin (1 / 10 ^ 10)"

definition iterMax :: nat where
  "iterMax = 50"

text \<open>
  The \<open>for\<close> loop of \<open>IRR\<close>, from the iteration counter's current value on. Leaving the
  loop without a \<open>return\<close> reaches the final \<open>return NaN\<close>.
\<close>

function IRR_loop :: "num list \<Rightarrow> num \<Rightarrow> nat \<Rightarrow> error + num" where
  "IRR_loop cashflow irr iteration =
     (if iteration < iterMax then
        (case NPV cashflow irr of
           Inl e \<Rightarrow> Inl e
         | Inr npv \<Rightarrow>
            (case dNPV cashflow irr of
               Inl e \<Rightarrow> Inl e
             | Inr d \<Rightarrow>
                (let irr2 = irr - npv / d;
                     dirr = \<bar>irr2 - irr\<bar>
                 in if dirr < epsMax \<or> \<bar>npv\<bar> < epsMax then Inr irr2
                    else IRR_loop cashflow irr2 (Suc iteration))))
      else Inr NaN)"
  by pat_completeness auto
termination
  by (relation "measure (\<lambda>(cashflow, irr, iteration). iterMax - iteration)") auto

text \<open>The initial guess may be omitted (\<open>undefined\<close>); it is then \<open>0.1\<close>.\<close>

definition IRR :: "num list \<Rightarrow> num option \<Rightarrow> error + num" where
  "IRR cashflow initialguess =
     (if list_ex (\<lambda>CFn. CFn > Fin 0) cashflow \<and> list_ex (\<lambda>CFn. CFn < Fin 0) cashflow
      then IRR_loop cashflow (case initialguess of None \<Rightarrow> Fin (1 / 10) | Some g \<Rightarrow> g) 0
      else Inr NaN)"

section \<open>The schedule generator\<close>

text \<open>One block of periods of the options; the number of periods may be omitted.\<close>

record period =
  periods :: "nat option"
  interest :: num
  payment :: num
  fee :: num
  usePayment :: bool

text \<open>The options; \<open>opt_periods\<close> is the field \<open>periods\<close>, which may be absent.\<close>

record options =
  costs :: num
  opt_periods :: "period list option"
  includeCost :: bool
  roundedPayment :: bool

text \<open>
  An element of \<open>loanPeriods\<close>, its fields prefixed by \<open>lp_\<close>; the field \<open>end\<close> is a
  number or \<open>NaN\<close>.
\<close>

record loanPeriod =
  lp_interest :: num
  lp_fee :: num
  lp_payment :: num
  lp_end :: "nat option"

text \<open>
  An element of \<open>paymentplan\<close>: the fields \<open>i\<close>, \<open>repayed\<close>, \<open>fee\<close>, \<open>interest\<close>,
  \<open>payment\<close> and \<open>balance\<close>, prefixed by \<open>plan_\<close>.
\<close>

record plan =
  plan_i :: nat
  plan_repayed :: num
  plan_fee :: num
  plan_interest :: num
  plan_payment :: num
  plan_balance :: num

text \<open>The object that \<open>cashflow\<close> returns; \<open>cashflow_of\<close> is its field \<open>cashflow\<close>.\<close>

record schedule =
  duration :: nat
  principal :: num
  totalpayed :: num
  totalinterest :: num
  paymentplan :: "plan list"
  cashflow_of :: "num list"

definition default_options :: options where
  "default_options =
     \<lparr>costs = Fin 1800,
      opt_periods = Some [\<lparr>periods = Some 24, interest = Fin 10, payment = Fin 0, fee = Fin 25,
                           usePayment = False\<rparr>],
      includeCost = True,
      roundedPayment = False\<rparr>"

text \<open>
  The periodical rate \<open>period.interest / 100 / ppy\<close> of a block, an expression that the
  code writes out at every use, and the element of \<open>deltaPrincipals\<close> of a block.
\<close>

definition period_rate :: "num \<Rightarrow> period \<Rightarrow> num" where
  "period_rate ppy per = interest per / Fin 100 / ppy"

definition deltaPrincipal :: "num \<Rightarrow> period \<Rightarrow> num" where
  "deltaPrincipal ppy per =
     (if usePayment per then payment per / apf (period_rate ppy per) (periods per)
      else - Fin 1)"

text \<open>
  The forward loop: \<open>P\<close> is the last element pushed on \<open>principalsForw\<close>; the result is
  the list of the elements pushed from here on.
\<close>

fun forward :: "num \<Rightarrow> num \<Rightarrow> period list \<Rightarrow> num list" where
  "forward ppy P [] = []"
| "forward ppy P (per # rest) =
     (let dP = deltaPrincipal ppy per
      in if dP < Fin 0 then []
         else (let P' = (P - dP) * Math_pow_count (Fin 1 + period_rate ppy per) (map_option int (periods per))
               in P' # forward ppy P' rest))"

text \<open>
  The backward loop over the blocks in reverse order: \<open>P0 # acc\<close> is \<open>principalsRev\<close>,
  on which every step puts a new first element.
\<close>

fun backward :: "num \<Rightarrow> num \<Rightarrow> num list \<Rightarrow> period list \<Rightarrow> num list" where
  "backward ppy P0 acc [] = P0 # acc"
| "backward ppy P0 acc (per # rest) =
     (let dP = deltaPrincipal ppy per
      in if dP < Fin 0 then P0 # acc
         else (let P = dP + P0 / Math_pow_count (Fin 1 + period_rate ppy per) (map_option int (periods per))
               in backward ppy P (P0 # acc) rest))"

definition principals_of :: "num \<Rightarrow> num \<Rightarrow> period list \<Rightarrow> num list" where
  "principals_of ppy princ ps =
     (let principalsForw = princ # forward ppy princ ps;
          principalsRev = backward ppy (Fin 0) [] (rev ps)
      in principalsForw @ principalsRev)"

text \<open>
  The final \<open>map\<close> that builds \<open>loanPeriods\<close>, from block \<open>index\<close> on, with the running
  sum \<open>end\<close> of the period counts.
\<close>

fun resolve :: "bool \<Rightarrow> num \<Rightarrow> num list \<Rightarrow> nat option \<Rightarrow> nat \<Rightarrow> period list
    \<Rightarrow> loanPeriod list" where
  "resolve rounded ppy principals end index [] = []"
| "resolve rounded ppy principals end index (per # rest) =
     (let end' = add_count end (periods per);
          payment0 =
            (if usePayment per then payment per
             else (elem principals index
                     - elem principals (index + 1)
                         / Math_pow_count (Fin 1 + period_rate ppy per) (map_option int (periods per)))
                  * apf (period_rate ppy per) (periods per));
          payment1 = (if \<not> usePayment per \<and> rounded then Math_ceil payment0 else payment0)
      in \<lparr>lp_interest = period_rate ppy per, lp_fee = fee per, lp_payment = payment1,
          lp_end = end'\<rparr>
         # resolve rounded ppy principals end' (Suc index) rest)"

definition loanPeriods_of :: "options \<Rightarrow> num \<Rightarrow> num \<Rightarrow> loanPeriod list" where
  "loanPeriods_of opt ppy princ =
     (case opt_periods opt of
        None \<Rightarrow> []
      | Some ps \<Rightarrow> resolve (roundedPayment opt) ppy (principals_of ppy princ ps) (Some 0) 0 ps)"

text \<open>
  The \<open>while\<close> loop: the state is \<open>balance\<close>, \<open>i\<close> and \<open>paymentplan\<close>. When no block
  covers period \<open>i\<close> the loop is left by \<open>break\<close>.
\<close>

function simulate :: "options \<Rightarrow> loanPeriod list \<Rightarrow> num \<Rightarrow> nat \<Rightarrow> plan list
    \<Rightarrow> num \<times> nat \<times> plan list" where
  "simulate opt loanPeriods balance i pp =
     (if i \<le> 180 \<and> balance \<ge> Fin (1 / 100) then
        (case find (\<lambda>per. less_count i (lp_end per)) loanPeriods of
           None \<Rightarrow> (balance, i, pp)
         | Some per \<Rightarrow>
            (let monthlyPayment = lp_payment per;
                 monthlyinterest = lp_interest per * balance;
                 monthlyfee = lp_fee per;
                 paym = monthlyPayment + monthlyfee;
                 repayment = monthlyPayment - monthlyinterest;
                 first = (i = 0 \<and> \<not> includeCost opt);
                 paym' = (if first then paym + costs opt else paym);
                 monthlyfee' = (if first then monthlyfee + costs opt else monthlyfee);
                 i' = Suc i
             in if balance > repayment then
                  simulate opt loanPeriods (balance - repayment) i'
                    (pp @ [\<lparr>plan_i = i', plan_repayed = repayment, plan_fee = monthlyfee',
                             plan_interest = monthlyinterest, plan_payment = paym',
                             plan_balance = balance - repayment\<rparr>])
                else
                  simulate opt loanPeriods (Fin 0) i'
                    (pp @ [\<lparr>plan_i = i', plan_repayed = balance, plan_fee = monthlyfee',
                             plan_interest = monthlyinterest,
                             plan_payment = balance + monthlyinterest + monthlyfee',
                             plan_balance = Fin 0\<rparr>])))
      else (balance, i, pp))"
  by pat_completeness auto
termination
  by (relation "measure (\<lambda>(opt, loanPeriods, balance, i, pp). 181 - i)") auto

definition cashflow :: "num \<Rightarrow> num \<Rightarrow> options option \<Rightarrow> schedule" where
  "cashflow p ppy opts =
     (let opt = (case opts of None \<Rightarrow> default_options | Some opt \<Rightarrow> opt);
          princ = p + (if includeCost opt then costs opt else Fin 0);
          loanPeriods = loanPeriods_of opt ppy princ;
          (balance, i, pp) = simulate opt loanPeriods princ 0 []
      in \<lparr>duration = i,
          principal = princ,
          totalpayed = foldl (\<lambda>total pl. total + plan_payment pl) (Fin 0) pp,
          totalinterest = foldl (\<lambda>total pl. total + plan_interest pl) (Fin 0) pp,
          paymentplan = pp,
          cashflow_of = [- p] @ map plan_payment pp\<rparr>)"

section \<open>Auxiliary definitions\<close>

text \<open>
  One iteration of the \<open>while\<close> loop, cut into the pieces the proofs speak about: the
  repayment of the period, the balance after it, the fee of the entry and the entry
  pushed on the payment plan.
\<close>

definition repayment_of :: "loanPeriod \<Rightarrow> num \<Rightarrow> num" where
  "repayment_of per balance = lp_payment per - lp_interest per * balance"

definition next_balance :: "loanPeriod \<Rightarrow> num \<Rightarrow> num" where
  "next_balance per balance =
     (if balance > repayment_of per balance then balance - repayment_of per balance else Fin 0)"

definition first_fee :: "options \<Rightarrow> loanPeriod \<Rightarrow> nat \<Rightarrow> num" where
  "first_fee opt per i =
     (if i = 0 \<and> \<not> includeCost opt then lp_fee per + costs opt else lp_fee per)"

definition plan_entry :: "options \<Rightarrow> loanPeriod \<Rightarrow> num \<Rightarrow> nat \<Rightarrow> plan" where
  "plan_entry opt per balance i =
     (if balance > repayment_of per balance then
        \<lparr>plan_i = Suc i, plan_repayed = repayment_of per balance,
         plan_fee = first_fee opt per i,
         plan_interest = lp_interest per * balance,
         plan_payment = (if i = 0 \<and> \<not> includeCost opt
                         then lp_payment per + lp_fee per + costs opt
                         else lp_payment per + lp_fee per),
         plan_balance = balance - repayment_of per balance\<rparr>
      else
        \<lparr>plan_i = Suc i, plan_repayed = balance,
         plan_fee = first_fee opt per i,
         plan_interest = lp_interest per * balance,
         plan_payment = balance + lp_interest per * balance + first_fee opt per i,
         plan_balance = Fin 0\<rparr>)"

text \<open>The options in force and the principal, as the first lines of \<open>cashflow\<close> set them.\<close>

definition opt_of :: "options option \<Rightarrow> options" where
  "opt_of opts = (case opts of None \<Rightarrow> default_options | Some opt \<Rightarrow> opt)"

definition principal_of :: "num \<Rightarrow> options \<Rightarrow> num" where
  "principal_of p opt = p + (if includeCost opt then costs opt else Fin 0)"

text \<open>A block of 240 periods without interest, repaid by 1 per period.\<close>

definition long_block :: period where
  "long_block = \<lparr>periods = Some 240, interest = Fin 0, payment = Fin 1, fee = Fin 0,
                   usePayment = True\<rparr>"

definition long_options :: options where
  "long_options = \<lparr>costs = Fin 0, opt_periods = Some [long_block], includeCost = True,
                     roundedPayment = False\<rparr>"

text \<open>Two blocks of one period: a fixed payment of 1234.10, then a computed payment.\<close>

definition rounding_blocks :: "period list" where
  "rounding_blocks =
     [\<lparr>periods = Some 1, interest = Fin 0, payment = Fin (12341 / 10), fee = Fin 0, usePayment = True\<rparr>,
      \<lparr>periods = Some 1, interest = Fin 0, payment = Fin 0, fee = Fin 0, usePayment = False\<rparr>]"

definition rounding_options :: options where
  "rounding_options = \<lparr>costs = Fin 0, opt_periods = Some rounding_blocks, includeCost = True,
                         roundedPayment = True\<rparr>"






fun closing :: "num \<Rightarrow> plan list \<Rightarrow> num" where
  "closing b [] = b"
| "closing b (e # es) = closing (plan_balance e) es"

section \<open>Definitions that follow the specification\<close>

text \<open>
  The payment that step 6 of the principal-splitting algorithm computes for the block
  \<open>index\<close>, before any rounding.
\<close>

definition computed_payment :: "num \<Rightarrow> num \<Rightarrow> period list \<Rightarrow> nat \<Rightarrow> num" where
  "computed_payment ppy princ ps index =
     (elem (principals_of ppy princ ps) index
        - elem (principals_of ppy princ ps) (index + 1)
            / Math_pow_count (Fin 1 + period_rate ppy (ps ! index))
                (map_option int (periods (ps ! index))))
     * apf (period_rate ppy (ps ! index)) (periods (ps ! index))"

text \<open>
  The declining balance of the annuity property: it starts at \<open>P\<close>, and a period turns
  the balance \<open>b\<close> into \<open>b * (1 + rate) - pay\<close>.
\<close>

fun balance_after :: "num \<Rightarrow> num \<Rightarrow> num \<Rightarrow> nat \<Rightarrow> num" where
  "balance_after P rate pay 0 = P"
| "balance_after P rate pay (Suc k) = balance_after P rate pay k * (Fin 1 + rate) - pay"

text \<open>The geometric sum of the first \<open>k\<close> powers of \<open>1 + r\<close>.\<close>

definition annuity_sum :: "real \<Rightarrow> nat \<Rightarrow> real" where
  "annuity_sum r k = (\<Sum>j<k. (1 + r) ^ j)"


text \<open>
  The rate solver in the words of the specification: the precondition on the cashflow,
  the initial guess, the Newton iterates and the two convergence tests at iteration
  \<open>k\<close>, counted from \<open>0\<close>.
\<close>

definition has_pos_and_neg :: "num list \<Rightarrow> bool" where
  "has_pos_and_neg cfs = (list_ex (\<lambda>c. Fin 0 < c) cfs \<and> list_ex (\<lambda>c. c < Fin 0) cfs)"

definition guess_of :: "num option \<Rightarrow> num" where
  "guess_of g = (case g of None \<Rightarrow> Fin (1 / 10) | Some x \<Rightarrow> x)"

definition npv_at :: "num list \<Rightarrow> num \<Rightarrow> num" where
  "npv_at cfs rate = (case NPV cfs rate of Inr v \<Rightarrow> v | Inl e \<Rightarrow> NaN)"

definition dnpv_at :: "num list \<Rightarrow> num \<Rightarrow> num" where
  "dnpv_at cfs rate = (case dNPV cfs rate of Inr v \<Rightarrow> v | Inl e \<Rightarrow> NaN)"

definition newton_step :: "num list \<Rightarrow> num \<Rightarrow> num" where
  "newton_step cfs rate = rate - npv_at cfs rate / dnpv_at cfs rate"

fun newton_rate :: "num list \<Rightarrow> num \<Rightarrow> nat \<Rightarrow> num" where
  "newton_rate cfs g 0 = g"
| "newton_rate cfs g (Suc k) = newton_step cfs (newton_rate cfs g k)"

definition rate_test :: "num list \<Rightarrow> num \<Rightarrow> nat \<Rightarrow> bool" where
  "rate_test cfs g k = (\<bar>newton_rate cfs g (Suc k) - newton_rate cfs g k\<bar> < epsMax)"

definition npv_test :: "num list \<Rightarrow> num \<Rightarrow> nat \<Rightarrow> bool" where
  "npv_test cfs g k = (\<bar>npv_at cfs (newton_rate cfs g k)\<bar> < epsMax)"

definition converged_at :: "num list \<Rightarrow> num \<Rightarrow> nat \<Rightarrow> bool" where
  "converged_at cfs g k = (rate_test cfs g k \<or> npv_test cfs g k)"

section \<open>Properties of the cashflow valuation\<close>

lemma reduce_from_sum:
  "0 < k \<Longrightarrow>
   reduce_from (\<lambda>a x i. if i > 0 then a + g x i else h x) acc xs k
     = acc + (\<Sum>j<length xs. g (xs ! j) (k + j))"
proof (induction xs arbitrary: acc k)
  case Nil
  then show ?case by (simp add: zero_num_def[symmetric])
next
  case (Cons x xs)
  have "reduce_from (\<lambda>a x i. if i > 0 then a + g x i else h x) acc (x # xs) k
      = (acc + g x k) + (\<Sum>j<length xs. g (xs ! j) (Suc k + j))"
    using Cons.prems Cons.IH[of "Suc k" "acc + g x k"] by simp
  also have "\<dots> = acc + (g x k + (\<Sum>j<length xs. g ((x # xs) ! Suc j) (k + Suc j)))"
    by (simp add: add.assoc)
  also have "\<dots> = acc + (\<Sum>j<length (x # xs). g ((x # xs) ! j) (k + j))"
    unfolding length_Cons by (subst sum.lessThan_Suc_shift) simp
  finally show ?case .
qed

lemma sum_from_one:
  fixes f :: "nat \<Rightarrow> num"
  shows "(\<Sum>i = 1..<Suc n. f i) = (\<Sum>j<n. f (Suc j))"
  unfolding One_nat_def sum.atLeast_Suc_lessThan_Suc_shift lessThan_atLeast0 comp_def ..

lemma NPV_sum:
  "cfs \<noteq> [] \<Longrightarrow>
   NPV cfs rate
     = Inr (cfs ! 0
            + (\<Sum>i = 1..<length cfs. cfs ! i / Math_pow (Fin 1 + rate) (int i)))"
proof -
  assume "cfs \<noteq> []"
  then obtain c cs where eq: "cfs = c # cs" by (cases cfs) auto
  have "NPV (c # cs) rate
      = Inr (c + (\<Sum>j<length cs. cs ! j / Math_pow (rate + Fin 1) (int (Suc j))))"
    unfolding NPV_def Let_def reduce.simps
    by (subst reduce_from_sum) simp_all
  also have "(\<Sum>j<length cs. cs ! j / Math_pow (rate + Fin 1) (int (Suc j)))
      = (\<Sum>i = 1..<length (c # cs). (c # cs) ! i / Math_pow (Fin 1 + rate) (int i))"
    unfolding length_Cons sum_from_one nth_Cons_Suc add.commute[of "Fin 1" rate] ..
  finally show ?thesis by (simp only: eq nth_Cons_0)
qed

text \<open>
  What \<open>dNPV\<close> computes on a sequence of at least one element: the callback is never
  called at index \<open>0\<close>, so the first element is the initial accumulator and stays in
  the result.
\<close>

lemma dNPV_sum:
  "dNPV (c # cs) rate
     = Inr (c + (\<Sum>i = 1..<Suc (length cs).
                   - (Fin (real i) * (c # cs) ! i / Math_pow (Fin 1 + rate) (int i + 1))))"
proof -
  have "dNPV (c # cs) rate
      = Inr (c + (\<Sum>j<length cs.
                   - (Fin (real (Suc j)) * cs ! j / Math_pow (rate + Fin 1) (int (Suc j) + 1))))"
    unfolding dNPV_def Let_def reduce.simps minus_num_def
    by (subst reduce_from_sum) simp_all
  then show ?thesis
    unfolding sum_from_one nth_Cons_Suc add.commute[of "Fin 1" rate] .
qed

text \<open>
  Claim C7. On every non-empty cashflow and at every rate, \<open>NPV\<close> returns the first
  element unscaled plus the sum over \<open>i \<ge> 1\<close> of \<open>cashflow[i] / (1 + rate)^i\<close>; on a
  single-element cashflow it returns that element.
\<close>

theorem NPV_closed_form:
  "(cfs \<noteq> [] \<longrightarrow>
      NPV cfs rate
        = Inr (cfs ! 0
               + (\<Sum>i = 1..<length cfs. cfs ! i / Math_pow (Fin 1 + rate) (int i))))
   \<and> NPV [c] rate = Inr c"
  using NPV_sum[of cfs rate] by (simp add: NPV_def)

theorem NPV_closed_form_witness:
  "[Fin (- 100), Fin 55, Fin 60.5] \<noteq> []
   \<and> NPV [Fin (- 100), Fin 55, Fin 60.5] (Fin (1 / 10)) = Inr (Fin 0)
   \<and> NPV [Fin 7] (Fin (1 / 10)) = Inr (Fin 7)"
  using NPV_closed_form[of "[Fin (- 100), Fin 55, Fin 60.5]" "Fin (1 / 10)" "Fin 7"]
  by (simp add: numeral_3_eq_3 sum.atLeast_Suc_lessThan power_int_def)

text \<open>
  Claim C1. The claim is that \<open>dNPV\<close> returns the sum over \<open>i \<ge> 1\<close> of
  \<open>- i * cashflow[i] / (1 + rate)^(i + 1)\<close>, the first element contributing \<open>0\<close>. On
  the cashflow \<open>[-100, 110]\<close> at rate \<open>0\<close> that sum is \<open>-110\<close>, and the code returns
  \<open>-210\<close>: the first element is added to the sum.
\<close>

theorem dNPV_counts_first_entry:
  "dNPV [Fin (- 100), Fin 110] (Fin 0) = Inr (Fin (- 210))
   \<and> (\<Sum>i = 1..<length [Fin (- 100), Fin 110].
         - (Fin (real i) * [Fin (- 100), Fin 110] ! i / Math_pow (Fin 1 + Fin 0) (int i + 1)))
       = Fin (- 110)"
  by (simp add: dNPV_def minus_num_def sum.atLeast_Suc_lessThan)

section \<open>Properties of the annuity factor\<close>

text \<open>
  Claim C4, as stated, says that \<open>apf\<close> returns \<open>1\<close> whenever the period count is \<open>0\<close>,
  at every rate. At the rate \<open>0.1\<close> it returns \<open>Infinity\<close>: a positive rate takes the
  first branch, whose denominator is then \<open>1 - 1\<close>.
\<close>

theorem apf_zero_periods_counterexample:
  "apf (Fin (1 / 10)) (Some 0) = PInf \<and> apf (Fin (1 / 10)) (Some 0) \<noteq> Fin 1"
  by (simp add: apf_def minus_num_def)

text \<open>
  Claim C4, amended. \<open>apf\<close> returns \<open>rate / (1 - (1 + rate)^(-n))\<close> at every rate
  \<open>> 0\<close>, returns \<open>1 / n\<close> at rate \<open>0\<close> for every period count \<open>n > 0\<close>, and returns
  \<open>1\<close> at period count \<open>0\<close> for every rate that is not \<open>> 0\<close>.
\<close>

theorem apf_cases:
  "(Fin 0 < rate \<longrightarrow>
      apf rate (Some n) = rate / (Fin 1 - Math_pow (Fin 1 + rate) (- int n)))
   \<and> (0 < n \<longrightarrow> apf (Fin 0) (Some n) = Fin (1 / real n))
   \<and> (\<not> Fin 0 < rate \<longrightarrow> apf rate (Some 0) = Fin 1)"
  by (simp add: apf_def)

theorem apf_cases_witness:
  "Fin 0 < Fin 1 \<and> apf (Fin 1) (Some 2) = Fin (4 / 3)
   \<and> 0 < (2::nat) \<and> apf (Fin 0) (Some 2) = Fin (1 / 2)
   \<and> \<not> Fin 0 < Fin 0 \<and> apf (Fin 0) (Some 0) = Fin 1"
  using apf_cases[of "Fin 1" 2] apf_cases[of "Fin 0" 0]
  by (simp add: minus_num_def power_int_def power2_eq_square)

subsection \<open>The annuity formula in exact arithmetic\<close>

lemma annuity_sum_0 [simp]: "annuity_sum r 0 = 0"
  by (simp add: annuity_sum_def)

lemma annuity_sum_Suc: "annuity_sum r (Suc k) = annuity_sum r k + (1 + r) ^ k"
  by (simp add: annuity_sum_def)

lemma annuity_sum_shift: "annuity_sum r (Suc k) = 1 + (1 + r) * annuity_sum r k"
  unfolding annuity_sum_def
  by (subst sum.lessThan_Suc_shift) (simp add: sum_distrib_left)

lemma annuity_sum_power: "r * annuity_sum r k = (1 + r) ^ k - 1"
  by (induction k) (simp_all add: annuity_sum_Suc algebra_simps)

lemma annuity_sum_pos: "0 \<le> r \<Longrightarrow> 0 < k \<Longrightarrow> 0 < annuity_sum r k"
  unfolding annuity_sum_def
  by (rule sum_pos) auto

lemma annuity_sum_mono: "0 \<le> r \<Longrightarrow> j < k \<Longrightarrow> annuity_sum r j < annuity_sum r k"
  unfolding annuity_sum_def
  by (rule sum_strict_mono2) auto

lemma apf_real_pos:
  assumes "0 < r" "0 < n"
  shows "r / (1 - (1 + r) powi (- int n)) = r + 1 / annuity_sum r n"
proof -
  have S: "0 < annuity_sum r n" using assms by (simp add: annuity_sum_pos)
  have x: "(1 + r) ^ n = 1 + r * annuity_sum r n"
    using annuity_sum_power[of r n] by simp
  have "(1 + r) powi (- int n) = 1 / (1 + r) ^ n"
    by (simp add: power_int_minus field_simps)
  then have "r / (1 - (1 + r) powi (- int n)) = r / (1 - 1 / (1 + r * annuity_sum r n))"
    by (simp add: x)
  also have "\<dots> = r + 1 / annuity_sum r n"
  proof -
    have "0 < r * annuity_sum r n" using S assms(1) by simp
    then have "1 + r * annuity_sum r n \<noteq> 0" by linarith
    then show ?thesis
      using S assms(1) by (simp add: field_simps)
  qed
  finally show ?thesis .
qed

lemma apf_Fin:
  assumes "0 \<le> r" "0 < n"
  shows "apf (Fin r) (Some n) = Fin (r + 1 / annuity_sum r n)"
proof (cases "r = 0")
  case True
  then show ?thesis
    using assms(2) by (simp add: apf_def annuity_sum_def)
next
  case False
  with assms have r: "0 < r" by simp
  have S: "0 < annuity_sum r n" using assms by (simp add: annuity_sum_pos)
  have x: "(1 + r) ^ n = 1 + r * annuity_sum r n"
    using annuity_sum_power[of r n] by simp
  have lt: "(1 + r) powi (- int n) \<noteq> 1"
  proof -
    have "0 < r * annuity_sum r n" using S r by simp
    then have "1 < (1 + r) ^ n" using x by linarith
    then show ?thesis by (simp add: power_int_minus field_simps)
  qed
  have "apf (Fin r) (Some n) = Fin (r / (1 - (1 + r) powi (- int n)))"
    using r assms(2) lt by (simp add: apf_def minus_num_def)
  then show ?thesis
    using apf_real_pos[OF r assms(2)] by simp
qed

lemma balance_after_Fin:
  assumes "0 \<le> r" "0 < n"
  shows "balance_after (Fin P) (Fin r) (Fin (P * (r + 1 / annuity_sum r n))) k
           = Fin (P * (1 - annuity_sum r k / annuity_sum r n))"
proof (induction k)
  case 0
  then show ?case by simp
next
  case (Suc k)
  have S: "annuity_sum r n \<noteq> 0" using annuity_sum_pos[OF assms] by simp
  have "P * (1 - annuity_sum r k / annuity_sum r n) * (1 + r) - P * (r + 1 / annuity_sum r n)
          = P * (1 - annuity_sum r (Suc k) / annuity_sum r n)"
    using S by (simp add: annuity_sum_shift field_simps)
  then show ?case
    by (simp add: Suc.IH minus_num_def)
qed

text \<open>
  With every operation exact, the payment \<open>P * apf(rate, n)\<close> brings the declining
  balance from \<open>P\<close> to \<open>0\<close> in \<open>n\<close> periods. This is a property of the formula. The code
  evaluates the formula in double precision, where every operation rounds, and whether
  the balance it computes is exactly \<open>0\<close> is not decided by this model: the lemma does
  not settle claim C6.
\<close>

lemma pmt_amortizes_exact:
  "0 < rate \<Longrightarrow> 0 < n \<Longrightarrow>
   balance_after (Fin P) (Fin rate) (pmt (Fin P) (Fin rate) (Some n)) n = Fin 0"
proof -
  assume r: "0 < rate" and n: "0 < n"
  have S: "annuity_sum rate n \<noteq> 0"
    using annuity_sum_pos[of rate n] r n by simp
  have "pmt (Fin P) (Fin rate) (Some n) = Fin (P * (rate + 1 / annuity_sum rate n))"
    using r n by (simp add: pmt_def apf_Fin)
  then show ?thesis
    using r n S by (simp add: balance_after_Fin)
qed

section \<open>Properties of the rate solver\<close>

declare IRR_loop.simps [simp del]

lemma NPV_npv_at: "cfs \<noteq> [] \<Longrightarrow> NPV cfs rate = Inr (npv_at cfs rate)"
  by (cases cfs) (simp_all add: npv_at_def NPV_def)

lemma dNPV_dnpv_at: "cfs \<noteq> [] \<Longrightarrow> dNPV cfs rate = Inr (dnpv_at cfs rate)"
  by (cases cfs) (simp_all add: dnpv_at_def dNPV_def)

lemma IRR_loop_step:
  "cfs \<noteq> [] \<Longrightarrow>
   IRR_loop cfs (newton_rate cfs g i) i =
     (if i < iterMax then
        (if converged_at cfs g i then Inr (newton_rate cfs g (Suc i))
         else IRR_loop cfs (newton_rate cfs g (Suc i)) (Suc i))
      else Inr NaN)"
  by (subst IRR_loop.simps)
     (simp add: NPV_npv_at dNPV_dnpv_at Let_def converged_at_def rate_test_def npv_test_def
        newton_step_def)

lemma IRR_loop_none:
  "cfs \<noteq> [] \<Longrightarrow> (\<forall>k. i \<le> k \<and> k < iterMax \<longrightarrow> \<not> converged_at cfs g k)
   \<Longrightarrow> IRR_loop cfs (newton_rate cfs g i) i = Inr NaN"
proof (induction m \<equiv> "iterMax - i" arbitrary: i)
  case 0
  then show ?case by (simp add: IRR_loop_step)
next
  case (Suc m)
  then have "i < iterMax" by simp
  moreover have "\<not> converged_at cfs g i" using Suc.prems(2) \<open>i < iterMax\<close> by simp
  moreover have "IRR_loop cfs (newton_rate cfs g (Suc i)) (Suc i) = Inr NaN"
    using Suc.hyps(2) Suc.prems by (intro Suc.hyps(1)) auto
  ultimately show ?case
    using Suc.prems(1) by (simp add: IRR_loop_step)
qed

lemma IRR_loop_first:
  "cfs \<noteq> [] \<Longrightarrow> i \<le> k \<Longrightarrow> k < iterMax \<Longrightarrow> converged_at cfs g k
   \<Longrightarrow> (\<forall>j. i \<le> j \<and> j < k \<longrightarrow> \<not> converged_at cfs g j)
   \<Longrightarrow> IRR_loop cfs (newton_rate cfs g i) i = Inr (newton_rate cfs g (Suc k))"
proof (induction m \<equiv> "k - i" arbitrary: i)
  case 0
  then have "i = k" by simp
  with 0 show ?case by (simp add: IRR_loop_step)
next
  case (Suc m)
  then have ik: "i < k" by simp
  then have "\<not> converged_at cfs g i" using Suc.prems(5) by simp
  moreover have "IRR_loop cfs (newton_rate cfs g (Suc i)) (Suc i)
                   = Inr (newton_rate cfs g (Suc k))"
    using Suc.hyps(2) Suc.prems ik by (intro Suc.hyps(1)) auto
  ultimately show ?case
    using Suc.prems(1,3) ik by (simp add: IRR_loop_step)
qed

lemma has_pos_and_neg_nonempty: "has_pos_and_neg cfs \<Longrightarrow> cfs \<noteq> []"
  by (auto simp: has_pos_and_neg_def)

lemma IRR_unfold:
  "IRR cfs g = (if has_pos_and_neg cfs then IRR_loop cfs (newton_rate cfs (guess_of g) 0) 0
                else Inr NaN)"
  by (simp add: IRR_def has_pos_and_neg_def guess_of_def)

lemma abs_less_Fin: "\<bar>x - y\<bar> < Fin e \<Longrightarrow> \<exists>a. x = Fin a"
  by (cases x; cases y) (simp_all add: minus_num_def)

lemma flat_values:
  "npv_at [Fin 1, Fin (- 3), Fin 2] (Fin 0) = Fin 0"
  "dnpv_at [Fin 1, Fin (- 3), Fin 2] (Fin 0) = Fin 0"
  by (simp_all add: npv_at_def dnpv_at_def NPV_def dNPV_def minus_num_def)

lemma loan_values:
  "npv_at [Fin (- 100), Fin 110] (Fin (1 / 10)) = Fin 0"
  "dnpv_at [Fin (- 100), Fin 110] (Fin (1 / 10)) = Fin (- 23100 / 121)"
  by (simp_all add: npv_at_def dnpv_at_def NPV_def dNPV_def minus_num_def power2_eq_square)

text \<open>
  Claim C2, as stated, says that \<open>IRR\<close> returns \<open>NaN\<close> exactly when the cashflow lacks a
  positive or a negative entry or no convergence test is met within 50 iterations. On
  the cashflow \<open>[1, -3, 2]\<close> with the initial guess \<open>0\<close> the precondition holds and the
  test on the net present value is met in the first iteration, and \<open>IRR\<close> returns
  \<open>NaN\<close> all the same: \<open>NPV\<close> and \<open>dNPV\<close> are both \<open>0\<close> there, and the new rate is
  \<open>0 - 0 / 0\<close>.
\<close>

theorem IRR_nan_after_convergence_counterexample:
  "IRR [Fin 1, Fin (- 3), Fin 2] (Some (Fin 0)) = Inr NaN
   \<and> has_pos_and_neg [Fin 1, Fin (- 3), Fin 2]
   \<and> 0 < iterMax
   \<and> converged_at [Fin 1, Fin (- 3), Fin 2] (guess_of (Some (Fin 0))) 0"
proof -
  let ?cf = "[Fin 1, Fin (- 3), Fin 2]"
  have p: "has_pos_and_neg ?cf" by (simp add: has_pos_and_neg_def)
  have c: "converged_at ?cf (Fin 0) 0"
    by (simp add: converged_at_def npv_test_def flat_values epsMax_def)
  have s: "newton_rate ?cf (Fin 0) (Suc 0) = NaN"
    by (simp add: newton_step_def flat_values minus_num_def)
  have "IRR ?cf (Some (Fin 0)) = Inr NaN"
    using IRR_loop_step[of ?cf "Fin 0" 0] p c s
    by (simp add: IRR_unfold guess_of_def iterMax_def)
  with p c show ?thesis by (simp add: guess_of_def iterMax_def)
qed

text \<open>
  Claim C2, amended. \<open>IRR\<close> never throws. It returns \<open>NaN\<close> whenever the cashflow
  lacks a positive or a negative entry, and whenever no convergence test is met within
  the 50 iterations. When the precondition holds and iteration \<open>k < 50\<close> is the first
  one to meet a test, it returns the rate computed in that iteration; that rate is a
  finite number when the test on the change of the rate is the one met.
\<close>

theorem IRR_result:
  "(\<exists>v. IRR cfs g = Inr v)
   \<and> (\<not> has_pos_and_neg cfs \<or> (\<forall>j<iterMax. \<not> converged_at cfs (guess_of g) j)
        \<longrightarrow> IRR cfs g = Inr NaN)
   \<and> (has_pos_and_neg cfs \<and> k < iterMax \<and> converged_at cfs (guess_of g) k
        \<and> (\<forall>j<k. \<not> converged_at cfs (guess_of g) j)
        \<longrightarrow> IRR cfs g = Inr (newton_rate cfs (guess_of g) (Suc k))
            \<and> (rate_test cfs (guess_of g) k \<longrightarrow> (\<exists>a. IRR cfs g = Inr (Fin a))))"
proof -
  let ?g = "guess_of g"
  have none: "IRR cfs g = Inr NaN"
    if "\<not> has_pos_and_neg cfs \<or> (\<forall>j<iterMax. \<not> converged_at cfs ?g j)"
  proof (cases "has_pos_and_neg cfs")
    case False
    then show ?thesis by (simp add: IRR_unfold)
  next
    case True
    with that have "\<forall>j. 0 \<le> j \<and> j < iterMax \<longrightarrow> \<not> converged_at cfs ?g j" by simp
    from IRR_loop_none[OF has_pos_and_neg_nonempty[OF True] this] True
    show ?thesis by (simp add: IRR_unfold)
  qed
  have first: "IRR cfs g = Inr (newton_rate cfs ?g (Suc k'))"
    if "has_pos_and_neg cfs" "k' < iterMax" "converged_at cfs ?g k'"
       "\<forall>j<k'. \<not> converged_at cfs ?g j" for k'
  proof -
    have "\<forall>j. 0 \<le> j \<and> j < k' \<longrightarrow> \<not> converged_at cfs ?g j" using that(4) by simp
    from IRR_loop_first[OF has_pos_and_neg_nonempty[OF that(1)] _ that(2,3) this] that(1)
    show ?thesis by (simp add: IRR_unfold)
  qed
  have finite: "\<exists>a. newton_rate cfs ?g (Suc k) = Fin a" if "rate_test cfs ?g k"
    using that unfolding rate_test_def epsMax_def by (rule abs_less_Fin)
  have total: "\<exists>v. IRR cfs g = Inr v"
  proof (cases "has_pos_and_neg cfs \<and> (\<exists>j<iterMax. converged_at cfs ?g j)")
    case False
    then show ?thesis using none by auto
  next
    case True
    then obtain j where j: "j < iterMax" "converged_at cfs ?g j" by auto
    define m where "m = (LEAST j. j < iterMax \<and> converged_at cfs ?g j)"
    have m: "m < iterMax \<and> converged_at cfs ?g m"
      unfolding m_def by (rule LeastI[of _ j]) (simp add: j)
    have "\<forall>i<m. \<not> converged_at cfs ?g i"
      using not_less_Least[of _ "\<lambda>j. j < iterMax \<and> converged_at cfs ?g j"] m
      unfolding m_def by (metis less_trans)
    with first[of m] m True show ?thesis by auto
  qed
  show ?thesis
    using total none first[of k] finite by auto
qed

theorem IRR_result_witness:
  "\<not> has_pos_and_neg [Fin 100, Fin 100, Fin 100]
   \<and> IRR [Fin 100, Fin 100, Fin 100] None = Inr NaN
   \<and> has_pos_and_neg [Fin (- 100), Fin 110]
   \<and> 0 < iterMax
   \<and> rate_test [Fin (- 100), Fin 110] (guess_of None) 0
   \<and> converged_at [Fin (- 100), Fin 110] (guess_of None) 0
   \<and> IRR [Fin (- 100), Fin 110] None = Inr (Fin (1 / 10))"
proof -
  have a: "\<not> has_pos_and_neg [Fin 100, Fin 100, Fin 100]"
    by (simp add: has_pos_and_neg_def)
  have p: "has_pos_and_neg [Fin (- 100), Fin 110]"
    by (simp add: has_pos_and_neg_def)
  have s: "newton_rate [Fin (- 100), Fin 110] (Fin (1 / 10)) (Suc 0) = Fin (1 / 10)"
    by (simp add: newton_step_def loan_values minus_num_def)
  have t: "rate_test [Fin (- 100), Fin 110] (guess_of None) 0"
    unfolding rate_test_def guess_of_def option.case s
    by (simp add: minus_num_def epsMax_def)
  then have c: "converged_at [Fin (- 100), Fin 110] (guess_of None) 0"
    by (simp add: converged_at_def)
  have i: "0 < iterMax" by (simp add: iterMax_def)
  have "IRR [Fin 100, Fin 100, Fin 100] None = Inr NaN"
    using IRR_result[of "[Fin 100, Fin 100, Fin 100]" None 0] a by blast
  moreover have "IRR [Fin (- 100), Fin 110] None
                   = Inr (newton_rate [Fin (- 100), Fin 110] (guess_of None) (Suc 0))"
    using IRR_result[of "[Fin (- 100), Fin 110]" None 0] p i c by simp
  then have "IRR [Fin (- 100), Fin 110] None = Inr (Fin (1 / 10))"
    by (simp only: guess_of_def option.case s)
  ultimately show ?thesis
    using a p i t c by blast
qed

section \<open>Properties of the schedule generator\<close>

text \<open>
  Claim C8. For every input, the \<open>cashflow\<close> field of the result is \<open>[-p]\<close>, with \<open>p\<close>
  the amount the caller passed and not the principal with the costs folded in, followed
  by the payment of every entry of the payment plan, in order.
\<close>

theorem cashflow_field:
  "cashflow_of (cashflow p ppy opts)
     = [- p] @ map plan_payment (paymentplan (cashflow p ppy opts))"
  by (simp add: cashflow_def Let_def split: prod.splits)

subsection \<open>The payments of the blocks\<close>

lemma resolve_length: "length (resolve rounded ppy principals e k ps) = length ps"
  by (induction ps arbitrary: e k) (simp_all add: Let_def)

lemma resolve_payment:
  "index < length ps \<Longrightarrow>
   lp_payment (resolve rounded ppy principals e k ps ! index)
     = (if usePayment (ps ! index) then payment (ps ! index)
        else if rounded
          then Math_ceil
                 ((elem principals (k + index)
                     - elem principals (k + index + 1)
                         / Math_pow_count (Fin 1 + period_rate ppy (ps ! index))
                             (map_option int (periods (ps ! index))))
                  * apf (period_rate ppy (ps ! index)) (periods (ps ! index)))
          else (elem principals (k + index)
                  - elem principals (k + index + 1)
                      / Math_pow_count (Fin 1 + period_rate ppy (ps ! index))
                          (map_option int (periods (ps ! index))))
               * apf (period_rate ppy (ps ! index)) (periods (ps ! index)))"
proof (induction ps arbitrary: e k index)
  case Nil
  then show ?case by simp
next
  case (Cons per rest)
  show ?case
  proof (cases index)
    case 0
    then show ?thesis by (simp add: Let_def del: Math_pow.simps)
  next
    case (Suc j)
    with Cons.prems have "j < length rest" by simp
    from Cons.IH[OF this, of "add_count e (periods per)" "Suc k"] Suc
    show ?thesis by (simp add: Let_def del: Math_pow.simps)
  qed
qed

lemma rounding_computed:
  "computed_payment (Fin 12) (Fin (12341 / 5)) rounding_blocks (Suc 0) = Fin (12341 / 10)"
  by (simp add: computed_payment_def principals_of_def elem_def rounding_blocks_def
        deltaPrincipal_def period_rate_def apf_def minus_num_def)

text \<open>
  Claim C9. The payment stored for a block with a fixed payment is that payment,
  whatever the option \<open>roundedPayment\<close>; the payment stored for a block whose payment is
  computed is the computed payment rounded up to a whole unit by \<open>Math.ceil\<close> when the
  option is set (a computed 1234.10 is stored as 1235), and the computed payment
  itself when the option is unset.
\<close>

theorem stored_payment:
  "opt_periods opt = Some ps \<Longrightarrow> index < length ps \<Longrightarrow>
   length (loanPeriods_of opt ppy princ) = length ps
   \<and> lp_payment (loanPeriods_of opt ppy princ ! index)
       = (if usePayment (ps ! index) then payment (ps ! index)
          else if roundedPayment opt then Math_ceil (computed_payment ppy princ ps index)
          else computed_payment ppy princ ps index)"
  by (simp add: loanPeriods_of_def resolve_length resolve_payment computed_payment_def
           del: Math_pow.simps)

theorem stored_payment_witness:
  "opt_periods rounding_options = Some rounding_blocks
   \<and> Suc 0 < length rounding_blocks
   \<and> computed_payment (Fin 12) (Fin (12341 / 5)) rounding_blocks (Suc 0) = Fin (12341 / 10)
   \<and> lp_payment (loanPeriods_of rounding_options (Fin 12) (Fin (12341 / 5)) ! Suc 0) = Fin 1235
   \<and> lp_payment (loanPeriods_of rounding_options (Fin 12) (Fin (12341 / 5)) ! 0)
       = Fin (12341 / 10)
   \<and> lp_payment (loanPeriods_of (rounding_options\<lparr>roundedPayment := False\<rparr>) (Fin 12)
                    (Fin (12341 / 5)) ! Suc 0) = Fin (12341 / 10)"
proof -
  have o: "opt_periods rounding_options = Some rounding_blocks"
          "opt_periods (rounding_options\<lparr>roundedPayment := False\<rparr>) = Some rounding_blocks"
    by (simp_all add: rounding_options_def)
  have r: "roundedPayment rounding_options"
          "\<not> roundedPayment (rounding_options\<lparr>roundedPayment := False\<rparr>)"
    by (simp_all add: rounding_options_def)
  have l: "Suc 0 < length rounding_blocks" "0 < length rounding_blocks"
    by (simp_all add: rounding_blocks_def)
  have u: "\<not> usePayment (rounding_blocks ! Suc 0)" "usePayment (rounding_blocks ! 0)"
          "payment (rounding_blocks ! 0) = Fin (12341 / 10)"
    by (simp_all add: rounding_blocks_def)
  have c: "Math_ceil (Fin (12341 / 10)) = Fin 1235"
  proof -
    have "\<lceil>12341 / 10 :: real\<rceil> = 1235" by linarith
    then show ?thesis by simp
  qed
  have "lp_payment (loanPeriods_of rounding_options (Fin 12) (Fin (12341 / 5)) ! Suc 0)
          = Fin 1235"
    using stored_payment[OF o(1) l(1), of "Fin 12" "Fin (12341 / 5)"]
    by (simp only: u r rounding_computed c if_True if_False)
  moreover
  have "lp_payment (loanPeriods_of rounding_options (Fin 12) (Fin (12341 / 5)) ! 0)
          = Fin (12341 / 10)"
    using stored_payment[OF o(1) l(2), of "Fin 12" "Fin (12341 / 5)"]
    by (simp only: u if_True)
  moreover
  have "lp_payment (loanPeriods_of (rounding_options\<lparr>roundedPayment := False\<rparr>) (Fin 12)
                      (Fin (12341 / 5)) ! Suc 0) = Fin (12341 / 10)"
    using stored_payment[OF o(2) l(1), of "Fin 12" "Fin (12341 / 5)"]
    by (simp only: u r rounding_computed if_False)
  ultimately show ?thesis
    using o(1) l(1) rounding_computed by blast
qed

subsection \<open>The simulation loop\<close>

declare simulate.simps [simp del]

lemma simulate_step:
  "simulate opt lps b i pp =
     (if i \<le> 180 \<and> b \<ge> Fin (1 / 100) then
        (case find (\<lambda>per. less_count i (lp_end per)) lps of
           None \<Rightarrow> (b, i, pp)
         | Some per \<Rightarrow>
             simulate opt lps (next_balance per b) (Suc i) (pp @ [plan_entry opt per b i]))
      else (b, i, pp))"
  by (subst simulate.simps)
     (simp add: Let_def next_balance_def plan_entry_def repayment_of_def first_fee_def
           split: option.split)

lemma plan_entry_i [simp]: "plan_i (plan_entry opt per b i) = Suc i"
  by (simp add: plan_entry_def)

lemma simulate_indices:
  "simulate opt lps b i pp = (b', i', pp') \<Longrightarrow> map plan_i pp = [1..<Suc i] \<Longrightarrow> i \<le> 181
   \<Longrightarrow> map plan_i pp' = [1..<Suc i'] \<and> i' \<le> 181"
proof (induction n \<equiv> "181 - i" arbitrary: b i pp)
  case 0
  then show ?case
    by (subst (asm) simulate_step) simp
next
  case (Suc n)
  show ?case
  proof (cases "i \<le> 180 \<and> b \<ge> Fin (1 / 100)")
    case False
    with Suc.prems show ?thesis
      by (subst (asm) simulate_step) simp
  next
    case go: True
    show ?thesis
    proof (cases "find (\<lambda>per. less_count i (lp_end per)) lps")
      case None
      with go Suc.prems show ?thesis
        by (subst (asm) simulate_step) simp
    next
      case (Some per)
      with go Suc.prems(1)
      have run: "simulate opt lps (next_balance per b) (Suc i) (pp @ [plan_entry opt per b i])
                   = (b', i', pp')"
        by (subst (asm) simulate_step) simp
      have "n = 181 - Suc i" using Suc.hyps(2) by simp
      moreover have "map plan_i (pp @ [plan_entry opt per b i]) = [1..<Suc (Suc i)]"
        using Suc.prems(2) by simp
      moreover have "Suc i \<le> 181" using go by simp
      ultimately show ?thesis
        using Suc.hyps(1) run by blast
    qed
  qed
qed

lemma cashflow_run:
  assumes "simulate (opt_of opts) (loanPeriods_of (opt_of opts) ppy (principal_of p (opt_of opts)))
             (principal_of p (opt_of opts)) 0 [] = (b, i, pp)"
  shows "duration (cashflow p ppy opts) = i" and "paymentplan (cashflow p ppy opts) = pp"
  using assms unfolding cashflow_def Let_def opt_of_def principal_of_def by simp_all

text \<open>
  Claim C10. For every input, the returned duration is the number of entries of the
  payment plan, and the \<open>k\<close>-th entry, counted from \<open>1\<close>, has the period index \<open>k\<close>.
\<close>

theorem duration_and_indices:
  "duration (cashflow p ppy opts) = length (paymentplan (cashflow p ppy opts))
   \<and> map plan_i (paymentplan (cashflow p ppy opts))
       = [1..<Suc (length (paymentplan (cashflow p ppy opts)))]"
proof -
  obtain b i pp where
    run: "simulate (opt_of opts) (loanPeriods_of (opt_of opts) ppy (principal_of p (opt_of opts)))
            (principal_of p (opt_of opts)) 0 [] = (b, i, pp)"
    using prod_cases3 by blast
  have idx: "map plan_i pp = [1..<Suc i]"
    using simulate_indices[OF run] by simp
  then have "length pp = i"
    by (metis length_map length_upt diff_Suc_1)
  with idx cashflow_run[OF run] show ?thesis by simp
qed

text \<open>
  The loop runs while \<open>i \<le> 180\<close> with \<open>i\<close> counted from \<open>0\<close>, so it terminates (the
  function \<open>simulate\<close> is total) with at most 181 entries.
\<close>

lemma plan_length_le:
  "length (paymentplan (cashflow p ppy opts)) \<le> 181"
proof -
  obtain b i pp where
    run: "simulate (opt_of opts) (loanPeriods_of (opt_of opts) ppy (principal_of p (opt_of opts)))
            (principal_of p (opt_of opts)) 0 [] = (b, i, pp)"
    using prod_cases3 by blast
  have idx: "map plan_i pp = [1..<Suc i] \<and> i \<le> 181"
    using simulate_indices[OF run] by simp
  then have "length pp = i"
    by (metis length_map length_upt diff_Suc_1)
  with idx cashflow_run[OF run] show ?thesis by simp
qed

lemma long_loanPeriods:
  "loanPeriods_of long_options (Fin 12) princ
     = [\<lparr>lp_interest = Fin 0, lp_fee = Fin 0, lp_payment = Fin 1, lp_end = Some 240\<rparr>]"
  by (simp add: loanPeriods_of_def long_options_def long_block_def period_rate_def)

lemma simulate_long:
  "simulate opt [\<lparr>lp_interest = Fin 0, lp_fee = Fin 0, lp_payment = Fin 1, lp_end = Some 240\<rparr>]
       (Fin (240 - real i)) i pp = (b', i', pp')
   \<Longrightarrow> i \<le> 181 \<Longrightarrow> i' = 181"
proof (induction n \<equiv> "181 - i" arbitrary: i pp)
  case 0
  then show ?case
    by (subst (asm) simulate_step) simp
next
  case (Suc n)
  have i: "i \<le> 180" using Suc.hyps(2) by simp
  have nb: "next_balance \<lparr>lp_interest = Fin 0, lp_fee = Fin 0, lp_payment = Fin 1, lp_end = Some 240\<rparr>
              (Fin (240 - real i)) = Fin (240 - real (Suc i))"
    using i by (simp add: next_balance_def repayment_of_def minus_num_def)
  from Suc.prems(1) i
  have "simulate opt [\<lparr>lp_interest = Fin 0, lp_fee = Fin 0, lp_payment = Fin 1, lp_end = Some 240\<rparr>]
          (Fin (240 - real (Suc i))) (Suc i)
          (pp @ [plan_entry opt \<lparr>lp_interest = Fin 0, lp_fee = Fin 0, lp_payment = Fin 1,
                                  lp_end = Some 240\<rparr> (Fin (240 - real i)) i])
        = (b', i', pp')"
    by (subst (asm) simulate_step) (simp add: nb del: of_nat_Suc)
  moreover have "n = 181 - Suc i" using Suc.hyps(2) by simp
  moreover have "Suc i \<le> 181" using i by simp
  ultimately show ?case using Suc.hyps(1) by blast
qed

text \<open>
  Claim C3. The claim is that the payment plan has at most 180 entries. A principal of
  240 in one block of 240 periods without interest, repaid by 1 per period, gives a plan
  of 181 entries: the loop condition \<open>i \<le> 180\<close> admits the iteration that starts at
  \<open>i = 180\<close>.
\<close>

theorem plan_of_181_entries:
  "length (paymentplan (cashflow (Fin 240) (Fin 12)
     (Some \<lparr>costs = Fin 0,
            opt_periods = Some [\<lparr>periods = Some 240, interest = Fin 0, payment = Fin 1, fee = Fin 0,
                                 usePayment = True\<rparr>],
            includeCost = True, roundedPayment = False\<rparr>))) = 181"
proof -
  let ?lps = "[\<lparr>lp_interest = Fin 0, lp_fee = Fin 0, lp_payment = Fin 1, lp_end = Some 240\<rparr>]"
  obtain b i pp where run: "simulate long_options ?lps (Fin 240) 0 [] = (b, i, pp)"
    using prod_cases3 by blast
  have "i = 181"
    using simulate_long[of long_options 0 "[]" b i pp] run by simp
  moreover have "map plan_i pp = [1..<Suc i]"
    using simulate_indices[OF run] by simp
  then have "length pp = i"
    by (metis length_map length_upt diff_Suc_1)
  moreover have "principal_of (Fin 240) long_options = Fin 240"
    by (simp add: principal_of_def long_options_def)
  then have "simulate (opt_of (Some long_options))
               (loanPeriods_of (opt_of (Some long_options)) (Fin 12)
                  (principal_of (Fin 240) (opt_of (Some long_options))))
               (principal_of (Fin 240) (opt_of (Some long_options))) 0 [] = (b, i, pp)"
    using run by (simp add: opt_of_def long_loanPeriods)
  then have "paymentplan (cashflow (Fin 240) (Fin 12) (Some long_options)) = pp"
    by (rule cashflow_run(2))
  ultimately show ?thesis
    by (simp add: long_options_def long_block_def)
qed

subsection \<open>The remaining balance\<close>






lemma closing_append [simp]: "closing b (pp @ [e]) = plan_balance e"
  by (induction pp arbitrary: b) simp_all











end
